theory Spec2Isabelle
  imports Complex_Main "HOL-Library.Multiset"
begin

section \<open>Python values used by blackjack.py\<close>

text \<open>
  The exceptions that the modelled code can raise. \<open>ValueError\<close> comes from
  \<^verbatim>\<open>int(...)\<close> on a string that is no decimal literal, \<open>IndexError\<close> from
  \<^verbatim>\<open>list.pop()\<close> on an empty list, \<open>EOFError\<close> from \<^verbatim>\<open>input()\<close> when the
  input is exhausted, \<open>ZeroDivisionError\<close> from a division by zero. A call
  returns \<open>Inl e\<close> when it raises \<open>e\<close> and \<open>Inr v\<close> when it returns \<open>v\<close>.
\<close>

datatype error = ValueError | IndexError | EOFError | ZeroDivisionError

text \<open>
  Strings are lists of code points below 256. \<^verbatim>\<open>str.lower()\<close> on such a string
  maps \<open>A..Z\<close> and the upper-case letters of Latin-1 to their lower-case forms.
\<close>

definition py_lower_char :: "char \<Rightarrow> char" where
  "py_lower_char c =
     (let n = (of_char c :: nat)
      in if (65 \<le> n \<and> n \<le> 90) \<or> (192 \<le> n \<and> n \<le> 222 \<and> n \<noteq> 215)
         then char_of (n + 32) else c)"

definition py_lower :: "string \<Rightarrow> string" where
  "py_lower s = map py_lower_char s"

text \<open>
  \<^verbatim>\<open>int(s)\<close> for a string \<open>s\<close>, base 10: surrounding whitespace is skipped, one
  sign is allowed, then decimal digits follow, where single underscores may stand
  between two digits. Anything else raises \<open>ValueError\<close>. The interpreter's
  configurable limit on the number of digits is taken as switched off.
\<close>

definition py_isspace :: "char \<Rightarrow> bool" where
  "py_isspace c = ((of_char c :: nat) \<in> {9, 10, 11, 12, 13, 32, 133, 160})"

definition py_isdigit :: "char \<Rightarrow> bool" where
  "py_isdigit c = (48 \<le> (of_char c :: nat) \<and> (of_char c :: nat) \<le> 57)"

definition digit_val :: "char \<Rightarrow> int" where
  "digit_val c = int (of_char c) - 48"

definition py_strip :: "string \<Rightarrow> string" where
  "py_strip s = rev (dropWhile py_isspace (rev (dropWhile py_isspace s)))"

fun parse_digits :: "int \<Rightarrow> string \<Rightarrow> int option" where
  "parse_digits acc [] = Some acc"
| "parse_digits acc [c] =
     (if py_isdigit c then Some (acc * 10 + digit_val c) else None)"
| "parse_digits acc (c # d # cs) =
     (if py_isdigit c then parse_digits (acc * 10 + digit_val c) (d # cs)
      else if c = CHR ''_'' \<and> py_isdigit d then parse_digits acc (d # cs)
      else None)"

definition parse_unsigned :: "string \<Rightarrow> int option" where
  "parse_unsigned s =
     (case s of [] \<Rightarrow> None
      | c # cs \<Rightarrow> if py_isdigit c then parse_digits 0 (c # cs) else None)"

definition py_int :: "string \<Rightarrow> error + int" where
  "py_int s =
     (case py_strip s of
        [] \<Rightarrow> Inl ValueError
      | c # cs \<Rightarrow>
          (if c = CHR ''-'' then
             (case parse_unsigned cs of None \<Rightarrow> Inl ValueError | Some n \<Rightarrow> Inr (- n))
           else if c = CHR ''+'' then
             (case parse_unsigned cs of None \<Rightarrow> Inl ValueError | Some n \<Rightarrow> Inr n)
           else
             (case parse_unsigned (c # cs) of None \<Rightarrow> Inl ValueError | Some n \<Rightarrow> Inr n)))"

text \<open>
  \<^verbatim>\<open>int(x)\<close> for a number \<open>x\<close> truncates towards zero. The payout multipliers of
  the game are \<open>-1\<close>, \<open>1\<close>, \<open>2\<close> (Python integers) and \<open>2.5\<close> (a float), all
  modelled as reals; the product \<^verbatim>\<open>bet * 2.5\<close> is computed exactly by double
  arithmetic as long as the bet stays below \<open>2 ^ 50\<close> in absolute value, which is
  the range in which this model agrees with the interpreter (the finite range of
  floats is not modelled either).
\<close>

definition py_trunc :: "real \<Rightarrow> int" where
  "py_trunc x = (if 0 \<le> x then \<lfloor>x\<rfloor> else \<lceil>x\<rceil>)"

text \<open>
  The state of the module-level generator of \<^verbatim>\<open>random\<close> is a stream of
  naturals: a call \<^verbatim>\<open>randbelow(n)\<close> returns the head of the stream modulo \<open>n\<close>
  and moves on. Every run of the real generator is some such stream.
\<close>

type_synonym rng = "nat \<Rightarrow> nat"

definition randbelow :: "nat \<Rightarrow> rng \<Rightarrow> nat \<times> rng" where
  "randbelow n r = (r 0 mod n, \<lambda>k. r (Suc k))"

text \<open>
  \<^verbatim>\<open>random.shuffle(x)\<close>: for \<open>i\<close> from \<open>len(x) - 1\<close> down to \<open>1\<close>, pick
  \<open>j = randbelow(i + 1)\<close> and exchange \<open>x[i]\<close> and \<open>x[j]\<close>.
\<close>

fun shuffle_loop :: "nat \<Rightarrow> 'a list \<Rightarrow> rng \<Rightarrow> 'a list \<times> rng" where
  "shuffle_loop 0 xs r = (xs, r)"
| "shuffle_loop (Suc i) xs r =
     (case randbelow (Suc i + 1) r of
        (j, r') \<Rightarrow> shuffle_loop i (xs[Suc i := xs ! j, j := xs ! Suc i]) r')"

definition py_shuffle :: "'a list \<Rightarrow> rng \<Rightarrow> 'a list \<times> rng" where
  "py_shuffle xs r = shuffle_loop (length xs - 1) xs r"

text \<open>\<^verbatim>\<open>list.pop()\<close> removes and returns the last element.\<close>

definition py_pop :: "'a list \<Rightarrow> error + ('a \<times> 'a list)" where
  "py_pop xs = (if xs = [] then Inl IndexError else Inr (last xs, butlast xs))"

section \<open>Card\<close>

datatype Suit = HEARTS | DIAMONDS | CLUBS | SPADES

text \<open>
  A card stores whatever suit and rank it is given. The rank is a string in every
  call of the program; the suit is never inspected by the rules, so its type is
  left open.
\<close>

record 's Card =
  suit :: 's
  rank :: string

definition Card_init :: "'s \<Rightarrow> string \<Rightarrow> error + 's Card" where
  "Card_init s r = Inr \<lparr>suit = s, rank = r\<rparr>"

definition Card_get_value :: "'s Card \<Rightarrow> error + int" where
  "Card_get_value c =
     (if rank c \<in> set [''J'', ''Q'', ''K''] then Inr 10
      else if rank c = ''A'' then Inr 11
      else py_int (rank c))"

section \<open>Deck\<close>

record Deck =
  cards :: "Suit Card list"
  num_decks :: int

definition suits :: "Suit list" where
  "suits = [HEARTS, DIAMONDS, CLUBS, SPADES]"

definition ranks :: "string list" where
  "ranks = [''2'', ''3'', ''4'', ''5'', ''6''] @ [''7'', ''8'', ''9'', ''10''] @
           [''J'', ''Q'', ''K'', ''A'']"

text \<open>
  The three nested loops of \<open>reset\<close> visit, for each of the \<open>num_decks\<close> rounds,
  every suit and under it every rank, and append \<^verbatim>\<open>Card(suit, rank)\<close>.
  \<^verbatim>\<open>range(n)\<close> is empty for \<open>n \<le> 0\<close>.
\<close>

fun append_cards :: "'s Card list \<Rightarrow> ('s \<times> string) list \<Rightarrow> error + 's Card list" where
  "append_cards acc [] = Inr acc"
| "append_cards acc ((s, r) # xs) =
     (case Card_init s r of
        Inl e \<Rightarrow> Inl e
      | Inr c \<Rightarrow> append_cards (acc @ [c]) xs)"

definition Deck_reset :: "Deck \<Rightarrow> rng \<Rightarrow> error + (Deck \<times> rng)" where
  "Deck_reset d r =
     (case append_cards [] (concat (replicate (nat (num_decks d)) (List.product suits ranks))) of
        Inl e \<Rightarrow> Inl e
      | Inr cs \<Rightarrow> (case py_shuffle cs r of (cs', r') \<Rightarrow> Inr (d\<lparr>cards := cs'\<rparr>, r')))"

definition Deck_init :: "int \<Rightarrow> rng \<Rightarrow> error + (Deck \<times> rng)" where
  "Deck_init n r = Deck_reset \<lparr>cards = [], num_decks = n\<rparr> r"

definition Deck_draw :: "Deck \<Rightarrow> rng \<Rightarrow> error + (Suit Card \<times> Deck \<times> rng)" where
  "Deck_draw d r =
     (case (if length (cards d) < 10 then Deck_reset d r else Inr (d, r)) of
        Inl e \<Rightarrow> Inl e
      | Inr (d', r') \<Rightarrow>
          (case py_pop (cards d') of
             Inl e \<Rightarrow> Inl e
           | Inr (c, cs) \<Rightarrow> Inr (c, d'\<lparr>cards := cs\<rparr>, r')))"

section \<open>Hand\<close>

text \<open>
  A hand has the single field \<open>cards\<close>; it is modelled as that list, the newest
  card last.
\<close>

type_synonym 's Hand = "'s Card list"

definition Hand_add_card :: "'s Hand \<Rightarrow> 's Card \<Rightarrow> 's Hand" where
  "Hand_add_card h c = h @ [c]"

text \<open>The \<^verbatim>\<open>for\<close> loop of \<open>get_value\<close>, carrying \<open>value\<close> and \<open>aces\<close>.\<close>

fun sum_values :: "'s Card list \<Rightarrow> int \<Rightarrow> int \<Rightarrow> error + (int \<times> int)" where
  "sum_values [] v a = Inr (v, a)"
| "sum_values (c # cs) v a =
     (case Card_get_value c of
        Inl e \<Rightarrow> Inl e
      | Inr p \<Rightarrow> sum_values cs (v + p) (if rank c = ''A'' then a + 1 else a))"

text \<open>The \<^verbatim>\<open>while value > 21 and aces > 0\<close> loop of \<open>get_value\<close>.\<close>

function adjust_aces :: "int \<Rightarrow> int \<Rightarrow> int" where
  "adjust_aces v a = (if v > 21 \<and> a > 0 then adjust_aces (v - 10) (a - 1) else v)"
  by pat_completeness auto
termination
  by (relation "measure (\<lambda>(v, a). nat a)") auto

declare adjust_aces.simps [simp del]

definition Hand_get_value :: "'s Hand \<Rightarrow> error + int" where
  "Hand_get_value h =
     (case sum_values h 0 0 of
        Inl e \<Rightarrow> Inl e
      | Inr (v, a) \<Rightarrow> Inr (adjust_aces v a))"

text \<open>
  \<^verbatim>\<open>len(self.cards) == 2 and self.get_value() == 21\<close>: the value is computed only
  when the hand has two cards.
\<close>

definition Hand_is_blackjack :: "'s Hand \<Rightarrow> error + bool" where
  "Hand_is_blackjack h =
     (if length h = 2
      then (case Hand_get_value h of Inl e \<Rightarrow> Inl e | Inr v \<Rightarrow> Inr (v = 21))
      else Inr False)"

section \<open>Facts about the shoe\<close>

definition valid_card :: "'s Card \<Rightarrow> bool" where
  "valid_card c = (rank c \<in> set ranks)"

definition hard_value :: "'s Card \<Rightarrow> int" where
  "hard_value c =
     (if rank c = ''A'' then 1
      else (case Card_get_value c of Inl e \<Rightarrow> 0 | Inr p \<Rightarrow> p))"

definition hard_total :: "'s Card list \<Rightarrow> int" where
  "hard_total h = sum_list (map hard_value h)"

lemma append_cards_eq:
  "append_cards acc xs = Inr (acc @ map (\<lambda>(s, r). \<lparr>suit = s, rank = r\<rparr>) xs)"
  by (induction xs arbitrary: acc) (auto simp: Card_init_def)

lemma shuffle_loop_mset:
  "i < length xs \<Longrightarrow> mset (fst (shuffle_loop i xs r)) = mset xs"
proof (induction i arbitrary: xs r)
  case 0
  then show ?case by simp
next
  case (Suc i)
  define j where "j = r 0 mod (Suc i + 1)"
  define ys where "ys = xs[Suc i := xs ! j, j := xs ! Suc i]"
  have j: "j < length xs"
    using Suc.prems by (simp add: j_def) (meson less_Suc_eq_le less_le_trans mod_less_divisor not_less zero_less_Suc)
  have "mset ys = mset xs"
    unfolding ys_def using Suc.prems j by (simp add: mset_swap)
  moreover have "i < length ys"
    using Suc.prems by (simp add: ys_def)
  ultimately show ?case
    using Suc.IH [of ys] by (simp add: randbelow_def j_def ys_def)
qed

lemma py_shuffle_mset: "mset (fst (py_shuffle xs r)) = mset xs"
proof (cases xs)
  case Nil
  then show ?thesis by (simp add: py_shuffle_def)
next
  case (Cons x ys)
  then show ?thesis by (simp add: py_shuffle_def shuffle_loop_mset)
qed

definition fresh_cards :: "int \<Rightarrow> Suit Card list" where
  "fresh_cards n =
     map (\<lambda>(s, r). \<lparr>suit = s, rank = r\<rparr>) (concat (replicate (nat n) (List.product suits ranks)))"

lemma length_fresh_cards: "length (fresh_cards n) = 52 * nat n"
  by (simp add: fresh_cards_def length_concat sum_list_replicate suits_def ranks_def)

lemma valid_fresh_cards: "c \<in> set (fresh_cards n) \<Longrightarrow> valid_card c"
  by (auto simp: fresh_cards_def valid_card_def split: if_splits)

lemma Deck_reset_eq:
  "\<exists>cs r'. Deck_reset d r = Inr (d\<lparr>cards := cs\<rparr>, r') \<and> mset cs = mset (fresh_cards (num_decks d))"
proof -
  obtain cs r' where s: "py_shuffle (fresh_cards (num_decks d)) r = (cs, r')"
    by (cases "py_shuffle (fresh_cards (num_decks d)) r")
  have "mset cs = mset (fresh_cards (num_decks d))"
    using py_shuffle_mset [of "fresh_cards (num_decks d)" r] s by simp
  moreover have "Deck_reset d r = Inr (d\<lparr>cards := cs\<rparr>, r')"
    using s by (simp add: Deck_reset_def append_cards_eq fresh_cards_def)
  ultimately show ?thesis by blast
qed

lemma Deck_draw_cases:
  assumes "Deck_draw d r = Inr (c, d', r')"
  shows "num_decks d' = num_decks d \<and>
         (if length (cards d) < 10
          then mset (cards d' @ [c]) = mset (fresh_cards (num_decks d))
          else cards d = cards d' @ [c] \<and> r' = r)"
proof (cases "length (cards d) < 10")
  case True
  obtain cs r1 where reset: "Deck_reset d r = Inr (d\<lparr>cards := cs\<rparr>, r1)"
    and cs: "mset cs = mset (fresh_cards (num_decks d))"
    using Deck_reset_eq [of d r] by blast
  from assms True reset have ne: "cs \<noteq> []"
    by (auto simp: Deck_draw_def py_pop_def split: if_splits)
  with assms True reset have "c = last cs" "cards d' = butlast cs" "num_decks d' = num_decks d"
    by (auto simp: Deck_draw_def py_pop_def)
  with ne cs True show ?thesis by simp
next
  case False
  then have ne: "cards d \<noteq> []" by auto
  with assms False have "c = last (cards d)" "cards d' = butlast (cards d)" "num_decks d' = num_decks d" "r' = r"
    by (auto simp: Deck_draw_def py_pop_def)
  with ne False show ?thesis by simp
qed

section \<open>Facts about hand values\<close>

lemma py_int_ranks:
  "py_int ''2'' = Inr 2" "py_int ''3'' = Inr 3" "py_int ''4'' = Inr 4"
  "py_int ''5'' = Inr 5" "py_int ''6'' = Inr 6" "py_int ''7'' = Inr 7"
  "py_int ''8'' = Inr 8" "py_int ''9'' = Inr 9" "py_int ''10'' = Inr 10"
  by (simp_all add: py_int_def py_strip_def py_isspace_def parse_unsigned_def
      py_isdigit_def digit_val_def)

lemma valid_card_value:
  assumes "valid_card c"
  shows "\<exists>p. Card_get_value c = Inr p \<and> 2 \<le> p \<and> p \<le> 11 \<and> 1 \<le> hard_value c"
  using assms
  by (auto simp: valid_card_def ranks_def Card_get_value_def hard_value_def py_int_ranks)

lemma sum_values_hard:
  "sum_values h v a = Inr (v', a') \<Longrightarrow> v' - 10 * a' = v - 10 * a + hard_total h \<and> a \<le> a'"
proof (induction h arbitrary: v a)
  case Nil
  then show ?case by (simp add: hard_total_def)
next
  case (Cons c h)
  then obtain p where p: "Card_get_value c = Inr p"
    by (cases "Card_get_value c") auto
  let ?a = "if rank c = ''A'' then a + 1 else a"
  from Cons.prems p have rest: "sum_values h (v + p) ?a = Inr (v', a')" by simp
  have hv: "p - 10 * ?a = hard_value c - 10 * a"
    using p by (auto simp: hard_value_def Card_get_value_def)
  from Cons.IH [OF rest] hv show ?case
    by (simp add: hard_total_def split: if_splits)
qed

lemma adjust_aces_lower: "0 \<le> a \<Longrightarrow> v - 10 * a \<le> adjust_aces v a"
proof (induction v a rule: adjust_aces.induct)
  case (1 v a)
  show ?case
  proof (cases "v > 21 \<and> a > 0")
    case True
    with "1.IH" have "v - 10 - 10 * (a - 1) \<le> adjust_aces (v - 10) (a - 1)" by simp
    with True show ?thesis by (subst adjust_aces.simps) simp
  next
    case False
    with "1.prems" show ?thesis by (subst adjust_aces.simps) auto
  qed
qed

lemma hard_total_le_value:
  assumes "Hand_get_value h = Inr x"
  shows "hard_total h \<le> x"
proof -
  from assms obtain v a where s: "sum_values h 0 0 = Inr (v, a)" and x: "x = adjust_aces v a"
    by (auto simp: Hand_get_value_def split: sum.splits)
  from sum_values_hard [OF s] have "v - 10 * a = hard_total h" "0 \<le> a" by simp_all
  with adjust_aces_lower [of a v] x show ?thesis by simp
qed

lemma hard_total_append: "hard_total (h @ [c]) = hard_total h + hard_value c"
  by (simp add: hard_total_def)

section \<open>BlackjackGame\<close>

record BlackjackGame =
  deck :: Deck
  player_hand :: "Suit Hand"
  dealer_hand :: "Suit Hand"
  player_balance :: int
  starting_balance :: int
  current_bet :: int
  wins :: int
  losses :: int
  pushes :: int
  blackjacks :: int
  busts :: int
  total_wagered :: int
  total_won :: int

definition BlackjackGame_init :: "rng \<Rightarrow> error + (BlackjackGame \<times> rng)" where
  "BlackjackGame_init r =
     (case Deck_init 6 r of
        Inl e \<Rightarrow> Inl e
      | Inr (d, r') \<Rightarrow>
          Inr (\<lparr>deck = d, player_hand = [], dealer_hand = [],
                player_balance = 1000, starting_balance = 1000, current_bet = 0,
                wins = 0, losses = 0, pushes = 0, blackjacks = 0, busts = 0,
                total_wagered = 0, total_won = 0\<rparr>, r'))"

definition start_round :: "BlackjackGame \<Rightarrow> rng \<Rightarrow> error + (BlackjackGame \<times> rng)" where
  "start_round g r =
     (case Deck_draw (deck g) r of Inl e \<Rightarrow> Inl e | Inr (c1, d1, r1) \<Rightarrow>
      (case Deck_draw d1 r1 of Inl e \<Rightarrow> Inl e | Inr (c2, d2, r2) \<Rightarrow>
       (case Deck_draw d2 r2 of Inl e \<Rightarrow> Inl e | Inr (c3, d3, r3) \<Rightarrow>
        (case Deck_draw d3 r3 of Inl e \<Rightarrow> Inl e | Inr (c4, d4, r4) \<Rightarrow>
           Inr (g\<lparr>deck := d4,
                  player_hand := Hand_add_card (Hand_add_card [] c1) c3,
                  dealer_hand := Hand_add_card (Hand_add_card [] c2) c4\<rparr>, r4)))))"

definition player_hit :: "BlackjackGame \<Rightarrow> rng \<Rightarrow> error + (bool \<times> BlackjackGame \<times> rng)" where
  "player_hit g r =
     (case Deck_draw (deck g) r of
        Inl e \<Rightarrow> Inl e
      | Inr (c, d', r') \<Rightarrow>
          (case Hand_get_value (Hand_add_card (player_hand g) c) of
             Inl e \<Rightarrow> Inl e
           | Inr v \<Rightarrow>
               Inr (v \<le> 21, g\<lparr>deck := d', player_hand := Hand_add_card (player_hand g) c\<rparr>, r')))"

text \<open>
  The dealer's loop ends: once the shoe holds only cards of the thirteen ranks
  (which is so after the first reshuffle at the latest), every card drawn raises the
  hand's total with aces counted as 1, and the loop stops at 17.
\<close>

definition dealer_measure1 :: "BlackjackGame \<times> rng \<Rightarrow> nat" where
  "dealer_measure1 = (\<lambda>(g, r).
     if list_all valid_card (cards (deck g)) then 0 else Suc (length (cards (deck g))))"

definition dealer_measure2 :: "BlackjackGame \<times> rng \<Rightarrow> nat" where
  "dealer_measure2 = (\<lambda>(g, r). nat (17 - hard_total (dealer_hand g)))"

lemma dealer_step_decreases:
  assumes v: "Hand_get_value (dealer_hand g) = Inr v" and lt: "v < 17"
    and draw: "Deck_draw (deck g) r = Inr (c, d', r')"
  shows "((g\<lparr>deck := d', dealer_hand := Hand_add_card (dealer_hand g) c\<rparr>, r'), (g, r))
           \<in> measures [dealer_measure1, dealer_measure2]"
proof -
  from hard_total_le_value [OF v] lt have hard: "hard_total (dealer_hand g) < 17" by simp
  note dc = Deck_draw_cases [OF draw]
  show ?thesis
  proof (cases "length (cards (deck g)) < 10")
    case True
    with dc have m: "mset (cards d' @ [c]) = mset (fresh_cards (num_decks (deck g)))" by simp
    then have "set (cards d' @ [c]) = set (fresh_cards (num_decks (deck g)))"
      by (rule mset_eq_setD)
    then have all: "list_all valid_card (cards d')" and c: "valid_card c"
      using valid_fresh_cards by (auto simp: list_all_iff)
    from valid_card_value [OF c] have "1 \<le> hard_value c" by blast
    with hard all show ?thesis
      by (auto simp: dealer_measure1_def dealer_measure2_def Hand_add_card_def hard_total_append)
  next
    case False
    with dc have eq: "cards (deck g) = cards d' @ [c]" by simp
    show ?thesis
    proof (cases "list_all valid_card (cards (deck g))")
      case True
      with eq have all: "list_all valid_card (cards d')" and c: "valid_card c" by simp_all
      from valid_card_value [OF c] have "1 \<le> hard_value c" by blast
      with hard all True show ?thesis
        by (auto simp: dealer_measure1_def dealer_measure2_def Hand_add_card_def hard_total_append)
    next
      case False
      with eq show ?thesis
        by (auto simp: dealer_measure1_def)
    qed
  qed
qed

function dealer_play :: "BlackjackGame \<Rightarrow> rng \<Rightarrow> error + (BlackjackGame \<times> rng)" where
  "dealer_play g r =
     (case Hand_get_value (dealer_hand g) of
        Inl e \<Rightarrow> Inl e
      | Inr v \<Rightarrow>
          if v < 17 then
            (case Deck_draw (deck g) r of
               Inl e \<Rightarrow> Inl e
             | Inr (c, d', r') \<Rightarrow>
                 dealer_play (g\<lparr>deck := d', dealer_hand := Hand_add_card (dealer_hand g) c\<rparr>) r')
          else Inr (g, r))"
  by pat_completeness auto
termination
  by (relation "measures [dealer_measure1, dealer_measure2]")
     (auto simp del: in_measures intro: dealer_step_decreases)

declare dealer_play.simps [simp del]

text \<open>
  \<open>determine_winner\<close> returns the payout multiplier and the message, and counts the
  outcome.
\<close>

definition determine_winner :: "BlackjackGame \<Rightarrow> error + (BlackjackGame \<times> real \<times> string)" where
  "determine_winner g =
     (case Hand_get_value (player_hand g) of Inl e \<Rightarrow> Inl e | Inr player_value \<Rightarrow>
      (case Hand_get_value (dealer_hand g) of Inl e \<Rightarrow> Inl e | Inr dealer_value \<Rightarrow>
         if player_value > 21 then
           Inr (g\<lparr>busts := busts g + 1, losses := losses g + 1\<rparr>,
                -1, ''Player busted! Dealer wins.'')
         else if dealer_value > 21 then
           Inr (g\<lparr>wins := wins g + 1\<rparr>, 2, ''Dealer busted! Player wins!'')
         else
           (case Hand_is_blackjack (player_hand g) of Inl e \<Rightarrow> Inl e | Inr player_bj \<Rightarrow>
            (case Hand_is_blackjack (dealer_hand g) of Inl e \<Rightarrow> Inl e | Inr dealer_bj \<Rightarrow>
               if player_bj \<and> \<not> dealer_bj then
                 Inr (g\<lparr>wins := wins g + 1, blackjacks := blackjacks g + 1\<rparr>,
                      2.5, ''Blackjack! Player wins!'')
               else if dealer_bj \<and> \<not> player_bj then
                 Inr (g\<lparr>losses := losses g + 1\<rparr>, -1, ''Dealer has blackjack. Dealer wins.'')
               else if player_bj \<and> dealer_bj then
                 Inr (g\<lparr>pushes := pushes g + 1\<rparr>, 1, ''Both have blackjack. Push!'')
               else if player_value > dealer_value then
                 Inr (g\<lparr>wins := wins g + 1\<rparr>, 2, ''Player wins!'')
               else if dealer_value > player_value then
                 Inr (g\<lparr>losses := losses g + 1\<rparr>, -1, ''Dealer wins.'')
               else
                 Inr (g\<lparr>pushes := pushes g + 1\<rparr>, 1, ''Push! It's a tie.'')))))"

text \<open>
  \<open>display_state\<close> only prints, but to print it computes the value of the dealer's
  hand (when the hole card is shown) and of the player's hand, which can raise. The
  printed text itself is not modelled.
\<close>

definition display_state :: "BlackjackGame \<Rightarrow> bool \<Rightarrow> error + unit" where
  "display_state g show_dealer_hole =
     (case (if show_dealer_hole then Hand_get_value (dealer_hand g) else Inr 0) of
        Inl e \<Rightarrow> Inl e
      | Inr _ \<Rightarrow>
          (case Hand_get_value (player_hand g) of
             Inl e \<Rightarrow> Inl e
           | Inr _ \<Rightarrow> Inr ()))"

text \<open>
  \<open>play\<close> reads its input line by line; the lines still to come are a list, and
  \<^verbatim>\<open>input()\<close> on the empty list raises \<open>EOFError\<close>.

  The betting loop (the inner \<^verbatim>\<open>while True\<close> at the head of a round): a line
  that is no integer is caught as \<open>ValueError\<close> and asked for again, like a bet
  that is not positive or exceeds the balance.
\<close>

fun place_bet :: "BlackjackGame \<Rightarrow> string list \<Rightarrow> error + (BlackjackGame \<times> string list)" where
  "place_bet g [] = Inl EOFError"
| "place_bet g (line # ins) =
     (case py_int line of
        Inl ValueError \<Rightarrow> place_bet g ins
      | Inl e \<Rightarrow> Inl e
      | Inr bet \<Rightarrow>
          if bet \<le> 0 \<or> bet > player_balance g then place_bet g ins
          else Inr (g\<lparr>current_bet := bet,
                       total_wagered := total_wagered g + bet,
                       player_balance := player_balance g - bet\<rparr>, ins))"

text \<open>
  The player's turn (the second inner \<^verbatim>\<open>while True\<close>): the result carries the
  flag \<open>bust\<close>. Both prompts read one line.
\<close>

fun player_turn ::
  "BlackjackGame \<Rightarrow> rng \<Rightarrow> bool \<Rightarrow> string list \<Rightarrow>
     error + (BlackjackGame \<times> rng \<times> bool \<times> string list)" where
  "player_turn g r doubled [] = Inl EOFError"
| "player_turn g r doubled (line # ins) =
     (let action = py_lower line in
      if action = ''h'' then
        (case player_hit g r of
           Inl e \<Rightarrow> Inl e
         | Inr (ok, g', r') \<Rightarrow>
             if \<not> ok then
               (case display_state g' True of
                  Inl e \<Rightarrow> Inl e
                | Inr _ \<Rightarrow> Inr (g', r', True, ins))
             else
               (case display_state g' False of
                  Inl e \<Rightarrow> Inl e
                | Inr _ \<Rightarrow> player_turn g' r' doubled ins))
      else if action = ''s'' then Inr (g, r, False, ins)
      else if action = ''d'' \<and> length (player_hand g) = 2 \<and> \<not> doubled then
        (if current_bet g > player_balance g then player_turn g r doubled ins
         else
           (let g1 = g\<lparr>player_balance := player_balance g - current_bet g\<rparr>;
                g2 = g1\<lparr>current_bet := current_bet g1 * 2\<rparr>;
                g3 = g2\<lparr>total_wagered := total_wagered g2 + current_bet g2 div 2\<rparr>
            in (case player_hit g3 r of
                  Inl e \<Rightarrow> Inl e
                | Inr (ok, g', r') \<Rightarrow>
                    if \<not> ok then
                      (case display_state g' True of
                         Inl e \<Rightarrow> Inl e
                       | Inr _ \<Rightarrow> Inr (g', r', True, ins))
                    else
                      (case display_state g' False of
                         Inl e \<Rightarrow> Inl e
                       | Inr _ \<Rightarrow> Inr (g', r', False, ins)))))
      else player_turn g r doubled ins)"

text \<open>
  What follows the player's turn: unless the player went bust the dealer plays, the
  winner is determined and the payout \<^verbatim>\<open>int(current_bet * multiplier)\<close> is added
  to the balance, and to \<open>total_won\<close> when the multiplier is positive.
\<close>

definition settle :: "BlackjackGame \<Rightarrow> rng \<Rightarrow> bool \<Rightarrow> error + (BlackjackGame \<times> rng)" where
  "settle g r bust =
     (if \<not> bust then
        (case dealer_play g r of
           Inl e \<Rightarrow> Inl e
         | Inr (g1, r1) \<Rightarrow>
             (case display_state g1 True of
                Inl e \<Rightarrow> Inl e
              | Inr _ \<Rightarrow>
                  (case determine_winner g1 of
                     Inl e \<Rightarrow> Inl e
                   | Inr (g2, multiplier, result) \<Rightarrow>
                       (let payout = py_trunc (of_int (current_bet g2) * multiplier);
                            g3 = g2\<lparr>player_balance := player_balance g2 + payout\<rparr>
                        in Inr (if multiplier > 0
                                then g3\<lparr>total_won := total_won g3 + payout\<rparr>
                                else g3, r1)))))
      else Inr (g, r))"

text \<open>
  \<open>display_statistics\<close> only prints as well. Once a hand is counted it divides
  the profit by \<open>starting_balance\<close>; its other divisions are guarded.
\<close>

definition display_statistics :: "BlackjackGame \<Rightarrow> error + unit" where
  "display_statistics g =
     (let total_rounds = wins g + losses g + pushes g
      in if total_rounds = 0 then Inr ()
         else if starting_balance g = 0 then Inl ZeroDivisionError
         else Inr ())"

text \<open>
  The end of a round: with chips left the player is asked whether to go on; the
  flag returned says that the session stops here (\<^verbatim>\<open>break\<close>). With no chips
  left the outer loop's test ends the session.
\<close>

definition ask_again :: "BlackjackGame \<Rightarrow> string list \<Rightarrow> error + (bool \<times> string list)" where
  "ask_again g ins =
     (if player_balance g \<le> 0 then
        (case display_statistics g of Inl e \<Rightarrow> Inl e | Inr _ \<Rightarrow> Inr (False, ins))
      else
        (case ins of
           [] \<Rightarrow> Inl EOFError
         | line # rest \<Rightarrow>
             if py_lower line \<noteq> ''y'' then
               (case display_statistics g of Inl e \<Rightarrow> Inl e | Inr _ \<Rightarrow> Inr (True, rest))
             else Inr (False, rest)))"

text \<open>
  A round after the bet is placed and the cards are dealt. A natural of the dealer
  or of the player ends the round at once (\<^verbatim>\<open>continue\<close>), before any action is
  asked for and without the question whether to go on.
\<close>

definition play_hand ::
  "BlackjackGame \<Rightarrow> rng \<Rightarrow> string list \<Rightarrow> error + (BlackjackGame \<times> rng \<times> string list \<times> bool)" where
  "play_hand g r ins =
     (case display_state g False of Inl e \<Rightarrow> Inl e | Inr _ \<Rightarrow>
      (case Hand_is_blackjack (dealer_hand g) of Inl e \<Rightarrow> Inl e | Inr dealer_bj \<Rightarrow>
         if dealer_bj then
           (case display_state g True of Inl e \<Rightarrow> Inl e | Inr _ \<Rightarrow>
            (case Hand_is_blackjack (player_hand g) of Inl e \<Rightarrow> Inl e | Inr player_bj \<Rightarrow>
               if player_bj then
                 Inr (g\<lparr>pushes := pushes g + 1,
                        player_balance := player_balance g + current_bet g\<rparr>, r, ins, False)
               else Inr (g\<lparr>losses := losses g + 1\<rparr>, r, ins, False)))
         else
           (case Hand_is_blackjack (player_hand g) of Inl e \<Rightarrow> Inl e | Inr player_bj \<Rightarrow>
              if player_bj then
                (case display_state g True of Inl e \<Rightarrow> Inl e | Inr _ \<Rightarrow>
                   (let win_amount = py_trunc (of_int (current_bet g) * 2.5)
                    in Inr (g\<lparr>wins := wins g + 1,
                              blackjacks := blackjacks g + 1,
                              total_won := total_won g + win_amount,
                              player_balance := player_balance g + win_amount\<rparr>, r, ins, False)))
              else
                (case player_turn g r False ins of Inl e \<Rightarrow> Inl e | Inr (g1, r1, bust, ins1) \<Rightarrow>
                 (case settle g1 r1 bust of Inl e \<Rightarrow> Inl e | Inr (g2, r2) \<Rightarrow>
                  (case ask_again g2 ins1 of Inl e \<Rightarrow> Inl e | Inr (stop, ins2) \<Rightarrow>
                     Inr (g2, r2, ins2, stop)))))))"

text \<open>One pass through the body of the outer loop of \<open>play\<close>.\<close>

definition play_round ::
  "BlackjackGame \<Rightarrow> rng \<Rightarrow> string list \<Rightarrow> error + (BlackjackGame \<times> rng \<times> string list \<times> bool)" where
  "play_round g r ins =
     (case place_bet g ins of Inl e \<Rightarrow> Inl e | Inr (g1, ins1) \<Rightarrow>
      (case start_round g1 r of Inl e \<Rightarrow> Inl e | Inr (g2, r2) \<Rightarrow>
         play_hand g2 r2 ins1))"

text \<open>
  The outer loop of \<open>play\<close>. Every round reads at least the bet, so the loop ends
  on every finite input: with \<open>EOFError\<close> at the latest.
\<close>

lemma place_bet_shorter:
  "place_bet g ins = Inr (g', ins') \<Longrightarrow> length ins' < length ins"
  by (induction ins) (auto split: sum.splits error.splits if_splits)

lemma player_turn_shorter:
  "player_turn g r doubled ins = Inr (g', r', bust, ins') \<Longrightarrow> length ins' \<le> length ins"
proof (induction ins arbitrary: g r doubled)
  case Nil
  then show ?case by simp
next
  case (Cons line ins)
  from Cons.prems show ?case
    by (auto simp: Let_def split: if_splits sum.splits prod.splits dest: Cons.IH)
qed

lemma ask_again_shorter:
  "ask_again g ins = Inr (stop, ins') \<Longrightarrow> length ins' \<le> length ins"
  by (auto simp: ask_again_def split: if_splits sum.splits list.splits)

lemma play_hand_shorter:
  "play_hand g r ins = Inr (g', r', ins', stop) \<Longrightarrow> length ins' \<le> length ins"
  unfolding play_hand_def
  by (auto simp: Let_def split: sum.splits if_splits prod.splits
      dest!: player_turn_shorter ask_again_shorter)

lemma play_round_shorter:
  "play_round g r ins = Inr (g', r', ins', stop) \<Longrightarrow> length ins' < length ins"
  unfolding play_round_def
  by (auto split: sum.splits prod.splits dest!: place_bet_shorter play_hand_shorter)

function play ::
  "BlackjackGame \<Rightarrow> rng \<Rightarrow> string list \<Rightarrow> error + (BlackjackGame \<times> rng \<times> string list)" where
  "play g r ins =
     (if player_balance g > 0 then
        (case play_round g r ins of
           Inl e \<Rightarrow> Inl e
         | Inr (g', r', ins', stop) \<Rightarrow>
             if stop then Inr (g', r', ins') else play g' r' ins')
      else Inr (g, r, ins))"
  by pat_completeness auto
termination
  by (relation "measure (\<lambda>(g, r, ins). length ins)")
     (auto dest: play_round_shorter)

declare play.simps [simp del]

section \<open>Concrete cards and tables\<close>

text \<open>A card of a given rank, and a fresh session at a shoe given by its ranks
  (the last one is drawn first).\<close>

definition card :: "string \<Rightarrow> Suit Card" where
  "card r = \<lparr>suit = SPADES, rank = r\<rparr>"

definition table :: "string list \<Rightarrow> BlackjackGame" where
  "table rs =
     \<lparr>deck = \<lparr>cards = map card rs, num_decks = 6\<rparr>,
      player_hand = [], dealer_hand = [],
      player_balance = 1000, starting_balance = 1000, current_bet = 0,
      wins = 0, losses = 0, pushes = 0, blackjacks = 0, busts = 0,
      total_wagered = 0, total_won = 0\<rparr>"

text \<open>A generator that always answers 0, ten cards that stay in the shoe, and the
  tables right after the deal that the examples below start from.\<close>

definition zeros :: rng where
  "zeros = (\<lambda>k. 0)"

definition spare :: "string list" where
  "spare = [''4'', ''9'', ''J'', ''3'', ''8'', ''2'', ''Q'', ''6'', ''5'', ''7'']"

definition dd_dealt :: BlackjackGame where
  "dd_dealt =
     (table (spare @ [''9'']))
       \<lparr>player_hand := [card ''5'', card ''6''],
        dealer_hand := [card ''K'', card ''7''],
        player_balance := 900, current_bet := 100, total_wagered := 100\<rparr>"

definition natural_dealt :: "int \<Rightarrow> BlackjackGame" where
  "natural_dealt b =
     (table spare)
       \<lparr>player_hand := [card ''A'', card ''K''],
        dealer_hand := [card ''9'', card ''8''],
        player_balance := 1000 - b, current_bet := b, total_wagered := b\<rparr>"

section \<open>The hand value as the specification words it\<close>

text \<open>
  The specification describes the value of a hand card by card: every card is
  counted with its point value, an ace as 11 (a soft ace); while the total exceeds
  21 and a soft ace is left, one soft ace is marked as counted as 1.
\<close>

datatype counted = Plain int | Soft | Hard

fun counted_value :: "counted \<Rightarrow> int" where
  "counted_value (Plain p) = p"
| "counted_value Soft = 11"
| "counted_value Hard = 1"

definition spec_total :: "counted list \<Rightarrow> int" where
  "spec_total xs = sum_list (map counted_value xs)"

fun harden_one :: "counted list \<Rightarrow> counted list" where
  "harden_one [] = []"
| "harden_one (Soft # xs) = Hard # xs"
| "harden_one (x # xs) = x # harden_one xs"

lemma harden_one_count:
  "Soft \<in> set xs \<Longrightarrow> Suc (count_list (harden_one xs) Soft) = count_list xs Soft"
  by (induction xs rule: harden_one.induct) auto

lemma harden_one_total:
  "Soft \<in> set xs \<Longrightarrow> spec_total (harden_one xs) = spec_total xs - 10"
  by (induction xs rule: harden_one.induct) (auto simp: spec_total_def)

function spec_resolve :: "counted list \<Rightarrow> counted list" where
  "spec_resolve xs =
     (if spec_total xs > 21 \<and> Soft \<in> set xs then spec_resolve (harden_one xs) else xs)"
  by pat_completeness auto
termination
  by (relation "measure (\<lambda>xs. count_list xs Soft)")
     (auto dest: harden_one_count)

declare spec_resolve.simps [simp del]

fun spec_count :: "'s Card list \<Rightarrow> error + counted list" where
  "spec_count [] = Inr []"
| "spec_count (c # cs) =
     (case (if rank c = ''A'' then Inr Soft else map_sum id Plain (Card_get_value c)) of
        Inl e \<Rightarrow> Inl e
      | Inr x \<Rightarrow> (case spec_count cs of Inl e \<Rightarrow> Inl e | Inr xs \<Rightarrow> Inr (x # xs)))"

definition spec_hand_value :: "'s Card list \<Rightarrow> error + int" where
  "spec_hand_value h =
     (case spec_count h of
        Inl e \<Rightarrow> Inl e
      | Inr xs \<Rightarrow> Inr (spec_total (spec_resolve xs)))"

lemma sum_values_spec_count:
  "sum_values h v a =
     (case spec_count h of
        Inl e \<Rightarrow> Inl e
      | Inr xs \<Rightarrow> Inr (v + spec_total xs, a + int (count_list xs Soft)))"
proof (induction h arbitrary: v a)
  case Nil
  then show ?case by (simp add: spec_total_def)
next
  case (Cons c h)
  show ?case
  proof (cases "rank c = ''A''")
    case True
    then have "Card_get_value c = Inr 11" by (simp add: Card_get_value_def)
    with True Cons.IH show ?thesis
      by (simp add: spec_total_def split: sum.splits)
  next
    case False
    with Cons.IH show ?thesis
      by (cases "Card_get_value c") (simp_all add: spec_total_def split: sum.splits)
  qed
qed

lemma adjust_aces_spec_resolve:
  "adjust_aces (spec_total xs) (int (count_list xs Soft)) = spec_total (spec_resolve xs)"
proof (induction xs rule: spec_resolve.induct)
  case (1 xs)
  show ?case
  proof (cases "spec_total xs > 21 \<and> Soft \<in> set xs")
    case True
    then have pos: "0 < count_list xs Soft"
      using count_list_0_iff [of xs Soft] by auto
    have c: "int (count_list xs Soft) - 1 = int (count_list (harden_one xs) Soft)"
      using harden_one_count [of xs] True by linarith
    have "adjust_aces (spec_total xs) (int (count_list xs Soft)) =
          adjust_aces (spec_total xs - 10) (int (count_list xs Soft) - 1)"
      using True pos by (subst adjust_aces.simps) simp
    also have "\<dots> = adjust_aces (spec_total (harden_one xs)) (int (count_list (harden_one xs) Soft))"
      using True c by (simp add: harden_one_total)
    also have "\<dots> = spec_total (spec_resolve (harden_one xs))"
      using "1.IH" True by simp
    also have "\<dots> = spec_total (spec_resolve xs)"
      using True by (subst (2) spec_resolve.simps) simp
    finally show ?thesis .
  next
    case False
    then have "count_list xs Soft = 0 \<or> spec_total xs \<le> 21"
      by (auto simp: count_list_0_iff)
    then have "adjust_aces (spec_total xs) (int (count_list xs Soft)) = spec_total xs"
      by (subst adjust_aces.simps) auto
    moreover have "spec_resolve xs = xs"
      using False by (subst spec_resolve.simps) auto
    ultimately show ?thesis by simp
  qed
qed

section \<open>Auxiliary facts\<close>

text \<open>Drawing succeeds from a shoe of at least one deck and yields cards of the
  thirteen ranks; a hand of such cards has a value.\<close>

lemma Deck_draw_total:
  assumes "1 \<le> num_decks d \<or> 10 \<le> length (cards d)"
  shows "\<exists>c d' r'. Deck_draw d r = Inr (c, d', r')"
proof (cases "length (cards d) < 10")
  case True
  obtain cs r1 where reset: "Deck_reset d r = Inr (d\<lparr>cards := cs\<rparr>, r1)"
    and cs: "mset cs = mset (fresh_cards (num_decks d))"
    using Deck_reset_eq [of d r] by blast
  from cs have "length cs = length (fresh_cards (num_decks d))"
    by (rule mset_eq_length)
  with assms True have "cs \<noteq> []"
    by (auto simp: length_fresh_cards)
  with True reset show ?thesis
    by (simp add: Deck_draw_def py_pop_def)
next
  case False
  then have "cards d \<noteq> []" by auto
  with False show ?thesis
    by (simp add: Deck_draw_def py_pop_def)
qed

lemma Deck_draw_valid:
  assumes "Deck_draw d r = Inr (c, d', r')" and "list_all valid_card (cards d)"
  shows "valid_card c \<and> list_all valid_card (cards d')"
proof (cases "length (cards d) < 10")
  case True
  with Deck_draw_cases [OF assms(1)]
  have "mset (cards d' @ [c]) = mset (fresh_cards (num_decks d))" by simp
  then have "set (cards d' @ [c]) = set (fresh_cards (num_decks d))"
    by (rule mset_eq_setD)
  then show ?thesis
    using valid_fresh_cards by (auto simp: list_all_iff)
next
  case False
  with Deck_draw_cases [OF assms(1)] have "cards d = cards d' @ [c]" by simp
  with assms(2) show ?thesis by simp
qed

lemma sum_values_valid:
  "list_all valid_card h \<Longrightarrow> \<exists>v' a'. sum_values h v a = Inr (v', a')"
proof (induction h arbitrary: v a)
  case Nil
  then show ?case by simp
next
  case (Cons c h)
  then obtain p where "Card_get_value c = Inr p"
    using valid_card_value [of c] by auto
  with Cons show ?case by simp
qed

lemma valid_hand_value:
  "list_all valid_card h \<Longrightarrow> \<exists>v. Hand_get_value h = Inr v"
  using sum_values_valid [of h 0 0] by (auto simp: Hand_get_value_def)

text \<open>Rewrite rules that evaluate a round on a concrete table.\<close>

lemmas eval_value =
  Hand_get_value_def Card_get_value_def adjust_aces.simps card_def
  py_int_def py_strip_def py_isspace_def parse_unsigned_def py_isdigit_def digit_val_def

lemmas eval_round =
  table_def card_def zeros_def spare_def
  py_int_def py_strip_def py_isspace_def parse_unsigned_def py_isdigit_def digit_val_def
  start_round_def Deck_draw_def py_pop_def Hand_add_card_def
  Hand_get_value_def Card_get_value_def adjust_aces.simps Hand_is_blackjack_def

lemma py_lower_actions:
  "py_lower ''h'' = ''h''" "py_lower ''s'' = ''s''" "py_lower ''d'' = ''d''"
  "py_lower ''D'' = ''d''" "py_lower ''n'' = ''n''" "py_lower ''y'' = ''y''"
  by code_simp+

lemma valid_card_card:
  "valid_card (card ''2'')" "valid_card (card ''3'')" "valid_card (card ''4'')"
  "valid_card (card ''5'')" "valid_card (card ''6'')" "valid_card (card ''7'')"
  "valid_card (card ''8'')" "valid_card (card ''9'')" "valid_card (card ''10'')"
  "valid_card (card ''J'')" "valid_card (card ''Q'')" "valid_card (card ''K'')"
  "valid_card (card ''A'')"
  by (simp_all add: valid_card_def card_def ranks_def)

lemmas eval_play =
  play_round_def play_hand_def display_state_def settle_def dealer_play.simps
  determine_winner_def py_trunc_def ask_again_def display_statistics_def
  player_hit_def Let_def py_lower_actions eval_round

section \<open>Card construction\<close>

text \<open>
  C10 (as amended). Constructing a card never fails, whatever suit and rank are
  given: the constructor stores both unchecked, and the program has no
  \<open>InvalidCardSpec\<close> error. In particular construction with a valid suit and rank
  never fails.
\<close>

theorem Card_init_never_fails:
  "\<exists>c. Card_init s r = Inr c \<and> suit c = s \<and> rank c = r"
  by (simp add: Card_init_def)

theorem Card_init_never_fails_witness:
  "\<exists>c. Card_init HEARTS ''A'' = Inr c \<and> suit c = HEARTS \<and> rank c = ''A''"
  using Card_init_never_fails [of HEARTS "''A''"] .

text \<open>
  The claim as first stated fails: a rank outside the thirteen ranks, and a suit
  that is no suit at all, are accepted. Only \<open>get_value\<close> notices such a rank.
\<close>

theorem Card_init_counterexample:
  "''Z'' \<notin> set ranks \<and>
   Card_init HEARTS ''Z'' = Inr \<lparr>suit = HEARTS, rank = ''Z''\<rparr> \<and>
   Card_init ''no suit'' ''Z'' = Inr \<lparr>suit = ''no suit'', rank = ''Z''\<rparr> \<and>
   Card_get_value \<lparr>suit = HEARTS, rank = ''Z''\<rparr> = Inl ValueError"
  by (simp add: Card_init_def ranks_def eval_value)

section \<open>Hands\<close>

text \<open>
  C9. \<open>is_blackjack\<close> returns true exactly for the hands of two cards whose value
  is 21; a hand of three or more cards with value 21, such as 7 + 7 + 7, gets false.
\<close>

theorem Hand_is_blackjack_iff:
  "(Hand_is_blackjack h = Inr True \<longleftrightarrow> length h = 2 \<and> Hand_get_value h = Inr 21) \<and>
   (3 \<le> length h \<longrightarrow> Hand_is_blackjack h = Inr False)"
  by (auto simp: Hand_is_blackjack_def split: sum.splits)

theorem Hand_is_blackjack_iff_witness:
  "3 \<le> length [card ''7'', card ''7'', card ''7''] \<and>
   Hand_get_value [card ''7'', card ''7'', card ''7''] = Inr 21 \<and>
   Hand_is_blackjack [card ''7'', card ''7'', card ''7''] = Inr False \<and>
   length [card ''A'', card ''K''] = 2 \<and>
   Hand_get_value [card ''A'', card ''K''] = Inr 21 \<and>
   Hand_is_blackjack [card ''A'', card ''K''] = Inr True"
proof -
  have v7: "Hand_get_value [card ''7'', card ''7'', card ''7''] = Inr 21"
    by (simp add: eval_value)
  have vn: "Hand_get_value [card ''A'', card ''K''] = Inr 21"
    by (simp add: eval_value)
  from Hand_is_blackjack_iff [of "[card ''7'', card ''7'', card ''7'']"]
  have b7: "Hand_is_blackjack [card ''7'', card ''7'', card ''7''] = Inr False" by simp
  from Hand_is_blackjack_iff [of "[card ''A'', card ''K'']"] vn
  have bn: "Hand_is_blackjack [card ''A'', card ''K''] = Inr True" by simp
  from v7 vn b7 bn show ?thesis by simp
qed

text \<open>
  C5. \<open>get_value\<close> computes what the specification describes: the sum of the point
  values with every ace counted as 11, lowered by 10 for one ace after the other
  while the total exceeds 21 and an ace still counts as 11. It raises exactly when
  a card has no point value. A + A + 9 is 21 and A + A + A is 13.
\<close>

theorem Hand_get_value_soft_aces:
  "Hand_get_value h = spec_hand_value h \<and>
   Hand_get_value [card ''A'', card ''A'', card ''9''] = Inr 21 \<and>
   Hand_get_value [card ''A'', card ''A'', card ''A''] = Inr 13"
proof -
  have "Hand_get_value h = spec_hand_value h"
  proof (cases "spec_count h")
    case (Inl e)
    then show ?thesis
      by (simp add: Hand_get_value_def spec_hand_value_def sum_values_spec_count)
  next
    case (Inr xs)
    then show ?thesis
      using adjust_aces_spec_resolve [of xs]
      by (simp add: Hand_get_value_def spec_hand_value_def sum_values_spec_count)
  qed
  moreover have "Hand_get_value [card ''A'', card ''A'', card ''9''] = Inr 21"
    by (simp add: eval_value)
  moreover have "Hand_get_value [card ''A'', card ''A'', card ''A''] = Inr 13"
    by (simp add: eval_value)
  ultimately show ?thesis by simp
qed

theorem Hand_get_value_soft_aces_witness:
  "spec_hand_value [card ''A'', card ''A'', card ''9''] = Inr 21 \<and>
   spec_hand_value [card ''A'', card ''A'', card ''A''] = Inr 13"
  using Hand_get_value_soft_aces [of "[card ''A'', card ''A'', card ''9'']"]
    Hand_get_value_soft_aces [of "[card ''A'', card ''A'', card ''A'']"]
  by simp

section \<open>The winner\<close>

text \<open>
  C4. \<open>determine_winner\<close> looks at the player's bust first: whenever the player's
  value exceeds 21 the result is the loss \<open>-1\<close> with the message of the player's
  bust, counted under \<open>busts\<close> and \<open>losses\<close>, whatever the dealer holds; so it is
  for 22 against 26.
\<close>

theorem determine_winner_player_bust:
  assumes "Hand_get_value (player_hand g) = Inr pv" and "21 < pv"
    and "Hand_get_value (dealer_hand g) = Inr dv"
  shows "determine_winner g =
           Inr (g\<lparr>busts := busts g + 1, losses := losses g + 1\<rparr>,
                -1, ''Player busted! Dealer wins.'')"
  using assms by (simp add: determine_winner_def)

theorem determine_winner_player_bust_witness:
  "Hand_get_value [card ''K'', card ''5'', card ''7''] = Inr 22 \<and>
   Hand_get_value [card ''K'', card ''6'', card ''Q''] = Inr 26 \<and>
   determine_winner ((table [])\<lparr>player_hand := [card ''K'', card ''5'', card ''7''],
                               dealer_hand := [card ''K'', card ''6'', card ''Q'']\<rparr>) =
     Inr ((table [])\<lparr>player_hand := [card ''K'', card ''5'', card ''7''],
                      dealer_hand := [card ''K'', card ''6'', card ''Q''],
                      busts := 1, losses := 1\<rparr>,
          -1, ''Player busted! Dealer wins.'')"
proof -
  let ?g = "(table [])\<lparr>player_hand := [card ''K'', card ''5'', card ''7''],
                        dealer_hand := [card ''K'', card ''6'', card ''Q'']\<rparr>"
  have p: "Hand_get_value (player_hand ?g) = Inr 22" by (simp add: eval_value)
  have d: "Hand_get_value (dealer_hand ?g) = Inr 26" by (simp add: eval_value)
  have lt: "(21::int) < 22" by simp
  from determine_winner_player_bust [OF p lt d] p d show ?thesis
    by (simp add: table_def)
qed

section \<open>Drawing from the shoe\<close>



section \<open>Double down\<close>

text \<open>
  C7. The answer \<open>d\<close> doubles down when the player holds exactly two cards, has
  not doubled in this round and the balance covers the bet: the balance goes down
  by the original bet, \<open>current_bet\<close> doubles, \<open>total_wagered\<close> grows by the original
  bet, exactly one card is drawn into the player's hand, and the turn ends there,
  bust or not, with no further line read. Otherwise \<open>d\<close> changes nothing and the
  player is asked again. From a balance of 1000 and a bet of 100: 900 after the
  bet, then 800, with \<open>current_bet\<close> 200 and \<open>total_wagered\<close> 100 higher.
\<close>

theorem double_down:
  assumes "py_lower line = ''d''"
  shows "(length (player_hand g) = 2 \<and> current_bet g \<le> player_balance g \<and>
          (1 \<le> num_decks (deck g) \<or> 10 \<le> length (cards (deck g))) \<and>
          list_all valid_card (cards (deck g)) \<and>
          list_all valid_card (player_hand g) \<and> list_all valid_card (dealer_hand g) \<longrightarrow>
          (\<exists>c d' r' v.
             Deck_draw (deck g) r = Inr (c, d', r') \<and>
             Hand_get_value (player_hand g @ [c]) = Inr v \<and>
             player_turn g r False (line # ins) =
               Inr (g\<lparr>player_balance := player_balance g - current_bet g,
                      current_bet := 2 * current_bet g,
                      total_wagered := total_wagered g + current_bet g,
                      deck := d',
                      player_hand := player_hand g @ [c]\<rparr>, r', 21 < v, ins))) \<and>
         (length (player_hand g) \<noteq> 2 \<or> doubled \<or> player_balance g < current_bet g \<longrightarrow>
          player_turn g r doubled (line # ins) = player_turn g r doubled ins)"
proof (intro conjI impI)
  assume h: "length (player_hand g) = 2 \<and> current_bet g \<le> player_balance g \<and>
          (1 \<le> num_decks (deck g) \<or> 10 \<le> length (cards (deck g))) \<and>
          list_all valid_card (cards (deck g)) \<and>
          list_all valid_card (player_hand g) \<and> list_all valid_card (dealer_hand g)"
  then obtain c d' r' where draw: "Deck_draw (deck g) r = Inr (c, d', r')"
    using Deck_draw_total [of "deck g" r] by blast
  from Deck_draw_valid [OF draw] h have c: "valid_card c" by simp
  with h have "list_all valid_card (player_hand g @ [c])" by simp
  then obtain v where v: "Hand_get_value (player_hand g @ [c]) = Inr v"
    using valid_hand_value by blast
  from h obtain dv where dv: "Hand_get_value (dealer_hand g) = Inr dv"
    using valid_hand_value by blast
  have "player_turn g r False (line # ins) =
          Inr (g\<lparr>player_balance := player_balance g - current_bet g,
                 current_bet := 2 * current_bet g,
                 total_wagered := total_wagered g + current_bet g,
                 deck := d',
                 player_hand := player_hand g @ [c]\<rparr>, r', 21 < v, ins)"
    using assms h draw v dv
    by (auto simp: Let_def player_hit_def Hand_add_card_def display_state_def)
  with draw v show "\<exists>c d' r' v.
             Deck_draw (deck g) r = Inr (c, d', r') \<and>
             Hand_get_value (player_hand g @ [c]) = Inr v \<and>
             player_turn g r False (line # ins) =
               Inr (g\<lparr>player_balance := player_balance g - current_bet g,
                      current_bet := 2 * current_bet g,
                      total_wagered := total_wagered g + current_bet g,
                      deck := d',
                      player_hand := player_hand g @ [c]\<rparr>, r', 21 < v, ins)"
    by blast
next
  assume "length (player_hand g) \<noteq> 2 \<or> doubled \<or> player_balance g < current_bet g"
  with assms show "player_turn g r doubled (line # ins) = player_turn g r doubled ins"
    by auto
qed

theorem double_down_witness:
  "(case place_bet (table (spare @ [''9'', ''7'', ''6'', ''K'', ''5''])) [''100'', ''D''] of
      Inl e \<Rightarrow> Inl e
    | Inr (g1, ins1) \<Rightarrow> start_round g1 zeros) = Inr (dd_dealt, zeros) \<and>
   py_lower ''D'' = ''d'' \<and>
   player_turn dd_dealt zeros False [''D''] =
     Inr (dd_dealt\<lparr>player_balance := 800, current_bet := 200, total_wagered := 200,
                    deck := \<lparr>cards = map card spare, num_decks = 6\<rparr>,
                    player_hand := [card ''5'', card ''6'', card ''9'']\<rparr>,
          zeros, False, [])"
proof -
  have l: "py_lower ''D'' = ''d''" by (rule py_lower_actions)
  have deal: "(case place_bet (table (spare @ [''9'', ''7'', ''6'', ''K'', ''5''])) [''100'', ''D''] of
      Inl e \<Rightarrow> Inl e
    | Inr (g1, ins1) \<Rightarrow> start_round g1 zeros) = Inr (dd_dealt, zeros)"
    by (simp add: dd_dealt_def eval_round)
  have draw: "Deck_draw (deck dd_dealt) zeros =
      Inr (card ''9'', \<lparr>cards = map card spare, num_decks = 6\<rparr>, zeros)"
    by (simp add: dd_dealt_def eval_round)
  have v: "Hand_get_value (player_hand dd_dealt @ [card ''9'']) = Inr 20"
    by (simp add: dd_dealt_def eval_round)
  have hyp: "length (player_hand dd_dealt) = 2 \<and> current_bet dd_dealt \<le> player_balance dd_dealt \<and>
          (1 \<le> num_decks (deck dd_dealt) \<or> 10 \<le> length (cards (deck dd_dealt))) \<and>
          list_all valid_card (cards (deck dd_dealt)) \<and>
          list_all valid_card (player_hand dd_dealt) \<and> list_all valid_card (dealer_hand dd_dealt)"
    by (simp add: dd_dealt_def table_def spare_def valid_card_card)
  from double_down [OF l, of dd_dealt zeros "[]"] hyp
  obtain c d' r' v' where
    "Deck_draw (deck dd_dealt) zeros = Inr (c, d', r')"
    "Hand_get_value (player_hand dd_dealt @ [c]) = Inr v'"
    "player_turn dd_dealt zeros False [''D''] =
       Inr (dd_dealt\<lparr>player_balance := player_balance dd_dealt - current_bet dd_dealt,
                      current_bet := 2 * current_bet dd_dealt,
                      total_wagered := total_wagered dd_dealt + current_bet dd_dealt,
                      deck := d',
                      player_hand := player_hand dd_dealt @ [c]\<rparr>, r', 21 < v', [])"
    by blast
  with draw v have "player_turn dd_dealt zeros False [''D''] =
     Inr (dd_dealt\<lparr>player_balance := 800, current_bet := 200, total_wagered := 200,
                    deck := \<lparr>cards = map card spare, num_decks = 6\<rparr>,
                    player_hand := [card ''5'', card ''6'', card ''9'']\<rparr>,
          zeros, False, [])"
    by (simp add: dd_dealt_def table_def)
  with l deal show ?thesis by simp
qed

section \<open>A natural blackjack of the player\<close>

text \<open>
  C8 (as amended). When the two cards dealt to the player are a natural blackjack
  and the dealer's two cards are not, the round ends at once: no line of input is
  read (no action is asked for), the shoe and the dealer's hand stay as they are,
  and the payout \<^verbatim>\<open>int(current_bet * 2.5)\<close>, that is 2.5 times the bet rounded
  down to a whole number, is added to the balance and to \<open>total_won\<close>. For an even
  bet this is exactly 2.5 times the bet (100 pays 250); for an odd bet it is half a
  chip less. (Stated for the bets below \<open>2 ^ 50\<close>, where the floating-point product
  is exact.)
\<close>

theorem natural_blackjack_payout:
  assumes "Hand_is_blackjack (player_hand g) = Inr True"
    and "Hand_is_blackjack (dealer_hand g) = Inr False"
    and "length (dealer_hand g) = 2"
    and "0 < current_bet g" and "current_bet g < 2 ^ 50"
  shows "play_hand g r ins =
           Inr (g\<lparr>wins := wins g + 1,
                  blackjacks := blackjacks g + 1,
                  total_won := total_won g + \<lfloor>2.5 * real_of_int (current_bet g)\<rfloor>,
                  player_balance := player_balance g + \<lfloor>2.5 * real_of_int (current_bet g)\<rfloor>\<rparr>,
                r, ins, False) \<and>
         \<lfloor>2.5 * real_of_int (current_bet g)\<rfloor> = 5 * current_bet g div 2 \<and>
         (even (current_bet g) \<longrightarrow>
            real_of_int \<lfloor>2.5 * real_of_int (current_bet g)\<rfloor> = 2.5 * real_of_int (current_bet g))"
proof -
  from assms(1) have pv: "Hand_get_value (player_hand g) = Inr 21"
    by (auto simp: Hand_is_blackjack_def split: if_splits sum.splits)
  from assms(2,3) obtain dv where dv: "Hand_get_value (dealer_hand g) = Inr dv"
    by (auto simp: Hand_is_blackjack_def split: if_splits sum.splits)
  have fl: "\<lfloor>2.5 * real_of_int (current_bet g)\<rfloor> = 5 * current_bet g div 2"
  proof -
    have "2.5 * real_of_int (current_bet g) = real_of_int (5 * current_bet g) / real_of_int 2"
      by simp
    then show ?thesis
      by (simp only: floor_divide_of_int_eq)
  qed
  have tr: "py_trunc (real_of_int (current_bet g) * 2.5) = \<lfloor>2.5 * real_of_int (current_bet g)\<rfloor>"
    using assms(4) by (simp add: py_trunc_def mult.commute)
  have "play_hand g r ins =
           Inr (g\<lparr>wins := wins g + 1,
                  blackjacks := blackjacks g + 1,
                  total_won := total_won g + \<lfloor>2.5 * real_of_int (current_bet g)\<rfloor>,
                  player_balance := player_balance g + \<lfloor>2.5 * real_of_int (current_bet g)\<rfloor>\<rparr>,
                r, ins, False)"
    unfolding play_hand_def using assms(1,2) pv dv tr
    by (simp add: display_state_def Let_def)
  moreover have "even (current_bet g) \<longrightarrow>
      real_of_int \<lfloor>2.5 * real_of_int (current_bet g)\<rfloor> = 2.5 * real_of_int (current_bet g)"
  proof
    assume "even (current_bet g)"
    then obtain k where k: "current_bet g = 2 * k" by (auto elim: evenE)
    have "\<lfloor>2.5 * real_of_int (current_bet g)\<rfloor> = 5 * k"
      unfolding fl by (simp add: k)
    then show "real_of_int \<lfloor>2.5 * real_of_int (current_bet g)\<rfloor> = 2.5 * real_of_int (current_bet g)"
      by (simp add: k)
  qed
  ultimately show ?thesis using fl by blast
qed

theorem natural_blackjack_payout_witness:
  "(case place_bet (table (spare @ [''8'', ''K'', ''9'', ''A''])) [''100'', ''h''] of
      Inl e \<Rightarrow> Inl e
    | Inr (g1, ins1) \<Rightarrow> start_round g1 zeros) = Inr (natural_dealt 100, zeros) \<and>
   Hand_is_blackjack (player_hand (natural_dealt 100)) = Inr True \<and>
   Hand_is_blackjack (dealer_hand (natural_dealt 100)) = Inr False \<and>
   play_hand (natural_dealt 100) zeros [''h''] =
     Inr ((natural_dealt 100)\<lparr>wins := 1, blackjacks := 1, total_won := 250,
                               player_balance := 1150\<rparr>, zeros, [''h''], False)"
proof -
  have deal: "(case place_bet (table (spare @ [''8'', ''K'', ''9'', ''A''])) [''100'', ''h''] of
      Inl e \<Rightarrow> Inl e
    | Inr (g1, ins1) \<Rightarrow> start_round g1 zeros) = Inr (natural_dealt 100, zeros)"
    by (simp add: natural_dealt_def eval_round)
  have p: "Hand_is_blackjack (player_hand (natural_dealt 100)) = Inr True"
    by (simp add: natural_dealt_def eval_round)
  have d: "Hand_is_blackjack (dealer_hand (natural_dealt 100)) = Inr False"
    by (simp add: natural_dealt_def eval_round)
  have n: "length (dealer_hand (natural_dealt 100)) = 2"
    by (simp add: natural_dealt_def)
  have b: "0 < current_bet (natural_dealt 100)" "current_bet (natural_dealt 100) < 2 ^ 50"
    by (simp_all add: natural_dealt_def)
  from natural_blackjack_payout [OF p d n b, of zeros "[''h'']"]
  have "play_hand (natural_dealt 100) zeros [''h''] =
     Inr ((natural_dealt 100)\<lparr>wins := 1, blackjacks := 1, total_won := 250,
                               player_balance := 1150\<rparr>, zeros, [''h''], False)"
    by (simp add: natural_dealt_def table_def)
  with deal p d show ?thesis by simp
qed

text \<open>
  The claim as first stated fails for an odd bet: a bet of 1 pays 2, not 2.5.
\<close>

theorem natural_blackjack_counterexample:
  "(case place_bet (table (spare @ [''8'', ''K'', ''9'', ''A''])) [''1''] of
      Inl e \<Rightarrow> Inl e
    | Inr (g1, ins1) \<Rightarrow> start_round g1 zeros) = Inr (natural_dealt 1, zeros) \<and>
   play_hand (natural_dealt 1) zeros [] =
     Inr ((natural_dealt 1)\<lparr>wins := 1, blackjacks := 1, total_won := 2,
                             player_balance := 1001\<rparr>, zeros, [], False) \<and>
   player_balance (natural_dealt 1) = 999 \<and>
   real_of_int (1001 - 999) \<noteq> 2.5 * real_of_int (current_bet (natural_dealt 1))"
  by (simp add: natural_dealt_def play_hand_def display_state_def py_trunc_def eval_round)

section \<open>Where the session ledger departs from its description\<close>

text \<open>
  C1. A lost round should cost the bet and no more. In \<open>play\<close> the bet is taken
  from the balance when it is placed, and a round that \<open>determine_winner\<close> gives to
  the dealer then adds \<^verbatim>\<open>int(current_bet * -1)\<close> to the balance, which takes the
  bet a second time: with 1000 chips and a bet of 100, standing on 18 against the
  dealer's 19 leaves 800. (A loss to a natural of the dealer, and a bust, cost the
  bet once.)
\<close>

theorem lost_round_charged_twice:
  "(case place_bet (table (spare @ [''9'', ''8'', ''Q'', ''K''])) [''100'', ''s'', ''n''] of
      Inl e \<Rightarrow> Inl e
    | Inr (g, ins) \<Rightarrow> Inr (player_balance g)) = Inr 900 \<and>
   (case play_round (table (spare @ [''9'', ''8'', ''Q'', ''K''])) zeros [''100'', ''s'', ''n''] of
      Inl e \<Rightarrow> Inl e
    | Inr (g, r, ins, stop) \<Rightarrow>
        Inr (Hand_get_value (player_hand g), Hand_get_value (dealer_hand g),
             current_bet g, losses g, player_balance g)) =
     Inr (Inr 18, Inr 19, 100, 1, 800)"
  by (simp add: eval_play)

text \<open>
  C2. Every round should count as a win, a loss or a push. A round that ends with
  the player's bust, after a hit or after doubling down, skips
  \<open>determine_winner\<close>, the only place that counts a bust: none of \<open>wins\<close>,
  \<open>losses\<close>, \<open>pushes\<close> and \<open>busts\<close> moves, although the bet is lost.
\<close>

theorem bust_round_not_counted:
  "(case play_round (table (spare @ [''K'', ''7'', ''6'', ''J'', ''Q''])) zeros [''100'', ''h'', ''n''] of
      Inl e \<Rightarrow> Inl e
    | Inr (g, r, ins, stop) \<Rightarrow>
        Inr (Hand_get_value (player_hand g), wins g, losses g, pushes g, busts g,
             player_balance g)) =
     Inr (Inr 26, 0, 0, 0, 0, 900) \<and>
   (case play_round (table (spare @ [''K'', ''7'', ''6'', ''J'', ''Q''])) zeros [''100'', ''d'', ''n''] of
      Inl e \<Rightarrow> Inl e
    | Inr (g, r, ins, stop) \<Rightarrow>
        Inr (Hand_get_value (player_hand g), wins g, losses g, pushes g, busts g,
             player_balance g)) =
     Inr (Inr 26, 0, 0, 0, 0, 800)"
  by (simp add: eval_play)

text \<open>
  C3. A push should never add to \<open>total_won\<close>. The push of two naturals, settled
  right after the deal, adds nothing to it; the push found by \<open>determine_winner\<close>
  has the multiplier 1, which passes the test \<^verbatim>\<open>multiplier > 0\<close>, and the returned
  bet is added to \<open>total_won\<close>: 18 against 18 with a bet of 100 gives
  \<open>total_won = 100\<close> with no round won.
\<close>

theorem push_counted_as_won:
  "(case play_round (table (spare @ [''8'', ''8'', ''Q'', ''K''])) zeros [''100'', ''s'', ''n''] of
      Inl e \<Rightarrow> Inl e
    | Inr (g, r, ins, stop) \<Rightarrow>
        Inr (Hand_get_value (player_hand g), Hand_get_value (dealer_hand g),
             pushes g, wins g, total_won g, player_balance g)) =
     Inr (Inr 18, Inr 18, 1, 0, 100, 1000) \<and>
   (case play_round (table (spare @ [''K'', ''Q'', ''A'', ''A''])) zeros [''100'', ''s'', ''n''] of
      Inl e \<Rightarrow> Inl e
    | Inr (g, r, ins, stop) \<Rightarrow>
        Inr (Hand_get_value (player_hand g), Hand_get_value (dealer_hand g),
             pushes g, wins g, total_won g, player_balance g)) =
     Inr (Inr 21, Inr 21, 1, 0, 0, 1000)"
  by (simp add: eval_play)

end
